theory Spec2Isabelle
  imports Complex_Main "HOL-Library.AList"
begin

section \<open>The SQuAD 2.0 evaluation script\<close>

text \<open>
  A shallow embedding of \<^verbatim>\<open>src/qa/squad_2_0_eval.py\<close>.

  Conventions of the embedding.
  \<^item> A Python \<^verbatim>\<open>str\<close> is a \<^typ>\<open>string\<close>; a \<^typ>\<open>char\<close> stands for the code point
    of the same number, so the strings covered are those whose code points are below 256.
    The character classes below are Python's own for that range.
  \<^item> A Python \<^verbatim>\<open>dict\<close> is an association list with distinct keys, in insertion order;
    \<open>d[k] = v\<close> is \<^const>\<open>AList.update\<close>, which overwrites in place or appends.
  \<^item> Python numbers (\<^verbatim>\<open>int\<close> and \<^verbatim>\<open>float\<close>) are real numbers: rounding is not modelled.
  \<^item> An exception is a value \<open>Inl e\<close> of a sum type.
  \<^item> \<^verbatim>\<open>print\<close> is modelled by returning the printed lines. What is written to the
    file system (directories, plots, \<^verbatim>\<open>f1_thres.json\<close>) is not modelled.
  \<^item> The module binds the global name \<open>plt\<close> only when it runs as a program with
    \<^verbatim>\<open>--na_prob_file\<close>. The functions that reach \<open>plot_pr_curve\<close> take a
    parameter \<open>plt\<close> telling whether the name is bound.
\<close>

subsection \<open>Python values\<close>

datatype py_error =
  KeyError string | ZeroDivisionError | TypeError | IndexError | NameError string

type_synonym ('k, 'v) dict = "('k \<times> 'v) list"

definition keys :: "('k, 'v) dict \<Rightarrow> 'k list" where
  "keys d = map fst d"

definition getitem :: "(string, 'v) dict \<Rightarrow> string \<Rightarrow> py_error + 'v" where
  "getitem d k = (case map_of d k of None \<Rightarrow> Inl (KeyError k) | Some v \<Rightarrow> Inr v)"

definition contains :: "('k, 'v) dict \<Rightarrow> 'k \<Rightarrow> bool" where
  "contains d k = (map_of d k \<noteq> None)"

text \<open>\<^verbatim>\<open>a / b\<close> on numbers.\<close>

definition true_div :: "real \<Rightarrow> real \<Rightarrow> py_error + real" where
  "true_div a b = (if b = 0 then Inl ZeroDivisionError else Inr (a / b))"

text \<open>\<^verbatim>\<open>xs[-1]\<close>.\<close>

definition last_item :: "'a list \<Rightarrow> py_error + 'a" where
  "last_item xs = (if xs = [] then Inl IndexError else Inr (last xs))"

definition bind :: "'e + 'a \<Rightarrow> ('a \<Rightarrow> 'e + 'b) \<Rightarrow> 'e + 'b" where
  "bind m f = (case m of Inl e \<Rightarrow> Inl e | Inr x \<Rightarrow> f x)"

subsection \<open>Character classes\<close>

text \<open>\<^verbatim>\<open>str.lower\<close> on one code point below 256.\<close>

definition lower_char :: "char \<Rightarrow> char" where
  "lower_char c =
     (let n = (of_char c :: nat)
      in if (65 \<le> n \<and> n \<le> 90) \<or> (192 \<le> n \<and> n \<le> 214) \<or> (216 \<le> n \<and> n \<le> 222)
         then char_of (n + 32) else c)"

text \<open>Membership in \<^verbatim>\<open>string.punctuation\<close>.\<close>

definition is_punc :: "char \<Rightarrow> bool" where
  "is_punc c =
     (let n = (of_char c :: nat)
      in (33 \<le> n \<and> n \<le> 47) \<or> (58 \<le> n \<and> n \<le> 64) \<or> (91 \<le> n \<and> n \<le> 96)
         \<or> (123 \<le> n \<and> n \<le> 126))"

text \<open>The characters \<^verbatim>\<open>str.split()\<close> separates at.\<close>

definition is_space :: "char \<Rightarrow> bool" where
  "is_space c =
     (let n = (of_char c :: nat)
      in (9 \<le> n \<and> n \<le> 13) \<or> (28 \<le> n \<and> n \<le> 32) \<or> n = 133 \<or> n = 160)"

text \<open>The characters matched by \<^verbatim>\<open>\w\<close> under \<^verbatim>\<open>re.UNICODE\<close>.\<close>

definition is_word :: "char \<Rightarrow> bool" where
  "is_word c =
     (let n = (of_char c :: nat)
      in (48 \<le> n \<and> n \<le> 57) \<or> (65 \<le> n \<and> n \<le> 90) \<or> n = 95 \<or> (97 \<le> n \<and> n \<le> 122)
         \<or> n = 170 \<or> n = 178 \<or> n = 179 \<or> n = 181 \<or> n = 185 \<or> n = 186
         \<or> (188 \<le> n \<and> n \<le> 190) \<or> (192 \<le> n \<and> n \<le> 214) \<or> (216 \<le> n \<and> n \<le> 246)
         \<or> (248 \<le> n \<and> n \<le> 255))"

subsection \<open>normalize_answer\<close>

definition lower :: "string \<Rightarrow> string" where
  "lower text = map lower_char text"

definition remove_punc :: "string \<Rightarrow> string" where
  "remove_punc text = filter (\<lambda>ch. \<not> is_punc ch) text"

text \<open>
  \<^verbatim>\<open>re.sub(r"\b(a|an|the)\b", " ", text)\<close> scans the text from left to right. At each
  position it tries the pattern: \<^verbatim>\<open>\b\<close>, then the first of the alternatives
  \<^verbatim>\<open>a\<close>, \<^verbatim>\<open>an\<close>, \<^verbatim>\<open>the\<close> that is followed by \<^verbatim>\<open>\b\<close>. A match is replaced
  by one space and the scan goes on behind it; otherwise the character is copied.

  \<open>word_boundary prev s\<close> is \<^verbatim>\<open>\b\<close> at the position in front of \<open>s\<close>, where \<open>prev\<close>
  tells whether the character before the position is a word character (\<open>False\<close> at
  the start of the text).
\<close>

definition word_boundary :: "bool \<Rightarrow> string \<Rightarrow> bool" where
  "word_boundary prev s = (prev \<noteq> (case s of [] \<Rightarrow> False | c # _ \<Rightarrow> is_word c))"

definition literal_then_boundary :: "string \<Rightarrow> string \<Rightarrow> bool" where
  "literal_then_boundary lit s =
     (take (length lit) s = lit \<and> word_boundary (is_word (last lit)) (drop (length lit) s))"

definition match_article :: "bool \<Rightarrow> string \<Rightarrow> nat option" where
  "match_article prev s =
     (if \<not> word_boundary prev s then None
      else if literal_then_boundary ''a'' s then Some 1
      else if literal_then_boundary ''an'' s then Some 2
      else if literal_then_boundary ''the'' s then Some 3
      else None)"

lemma take_eq_length: "take (length lit) s = lit \<Longrightarrow> length lit \<le> length s"
  by (metis length_take min.cobounded1)

lemma literal_then_boundary_length: "literal_then_boundary lit s \<Longrightarrow> length lit \<le> length s"
  unfolding literal_then_boundary_def using take_eq_length by blast

lemma match_article_pos: "match_article prev s = Some n \<Longrightarrow> 0 < n \<and> n \<le> length s"
  by (auto simp: match_article_def split: if_splits dest!: literal_then_boundary_length)

function sub_articles :: "bool \<Rightarrow> string \<Rightarrow> string" where
  "sub_articles prev [] = []"
| "sub_articles prev (c # cs) =
     (case match_article prev (c # cs) of
        Some n \<Rightarrow> CHR '' '' # sub_articles (is_word ((c # cs) ! (n - 1))) (drop n (c # cs))
      | None \<Rightarrow> c # sub_articles (is_word c) cs)"
  by pat_completeness auto
termination
  by (relation "measure (\<lambda>(prev, s). length s)") (auto dest: match_article_pos)

definition remove_articles :: "string \<Rightarrow> string" where
  "remove_articles text = sub_articles False text"

text \<open>
  \<^verbatim>\<open>text.split()\<close>: the maximal runs of characters that are not whitespace. \<open>cur\<close> is
  the run being read.
\<close>

fun split_run :: "string \<Rightarrow> string \<Rightarrow> string list" where
  "split_run cur [] = (if cur = [] then [] else [cur])"
| "split_run cur (c # cs) =
     (if is_space c then (if cur = [] then split_run [] cs else cur # split_run [] cs)
      else split_run (cur @ [c]) cs)"

definition split :: "string \<Rightarrow> string list" where
  "split text = split_run [] text"

text \<open>\<^verbatim>\<open>sep.join(xs)\<close>.\<close>

fun join :: "string \<Rightarrow> string list \<Rightarrow> string" where
  "join sep [] = []"
| "join sep [x] = x"
| "join sep (x # y # ys) = x @ sep @ join sep (y # ys)"

definition white_space_fix :: "string \<Rightarrow> string" where
  "white_space_fix text = join '' '' (split text)"

definition normalize_answer :: "string \<Rightarrow> string" where
  "normalize_answer s = white_space_fix (remove_articles (remove_punc (lower s)))"

subsection \<open>Pairwise scores\<close>

definition get_tokens :: "string \<Rightarrow> string list" where
  "get_tokens s = (if s = [] then [] else split (normalize_answer s))"

definition compute_exact :: "string \<Rightarrow> string \<Rightarrow> real" where
  "compute_exact a_gold a_pred = (if normalize_answer a_gold = normalize_answer a_pred then 1 else 0)"

text \<open>
  \<^verbatim>\<open>collections.Counter(xs)\<close> counts each element in a dictionary; \<^verbatim>\<open>c & d\<close> keeps
  each key of \<open>c\<close> with the smaller of its two counts, when that is positive (a key
  that \<open>d\<close> lacks counts 0 there).
\<close>

definition counter_get :: "('a, nat) dict \<Rightarrow> 'a \<Rightarrow> nat" where
  "counter_get c x = (case map_of c x of None \<Rightarrow> 0 | Some n \<Rightarrow> n)"

definition Counter :: "'a list \<Rightarrow> ('a, nat) dict" where
  "Counter xs = fold (\<lambda>x c. AList.update x (counter_get c x + 1) c) xs []"

definition counter_and :: "('a, nat) dict \<Rightarrow> ('a, nat) dict \<Rightarrow> ('a, nat) dict" where
  "counter_and c d =
     filter (\<lambda>(x, n). 0 < n) (map (\<lambda>(x, n). (x, min n (counter_get d x))) c)"

definition values_sum :: "('a, nat) dict \<Rightarrow> nat" where
  "values_sum c = sum_list (map snd c)"

definition compute_f1 :: "string \<Rightarrow> string \<Rightarrow> real" where
  "compute_f1 a_gold a_pred =
     (let gold_toks = get_tokens a_gold;
          pred_toks = get_tokens a_pred;
          common = counter_and (Counter gold_toks) (Counter pred_toks);
          num_same = values_sum common
      in if length gold_toks = 0 \<or> length pred_toks = 0
         then (if gold_toks = pred_toks then 1 else 0)
         else if num_same = 0 then 0
         else (let precision = 1 * real num_same / real (length pred_toks);
                   recall = 1 * real num_same / real (length gold_toks);
                   f1 = (2 * precision * recall) / (precision + recall)
               in f1))"

subsection \<open>The dataset and the dictionaries of a run\<close>

text \<open>
  The dataset is a list of paragraphs, each with its list \<open>qas\<close> of questions; a
  question has an \<open>id\<close> and a list \<open>answers\<close> of objects with a \<open>text\<close>.
\<close>

record answer =
  answer_text :: string

record qa =
  qa_id :: string
  qa_answers :: "answer list"

record qa_paragraph =
  qas :: "qa list"

type_synonym dataset = "qa_paragraph list"

type_synonym scores = "(string, real) dict"

type_synonym eval_dict = "(string, real) dict"

definition make_qid_to_has_ans :: "dataset \<Rightarrow> (string, bool) dict" where
  "make_qid_to_has_ans dataset =
     fold (\<lambda>p qid_to_has_ans.
             fold (\<lambda>q d. AList.update (qa_id q) (qa_answers q \<noteq> []) d) (qas p) qid_to_has_ans)
          dataset []"

subsection \<open>Raw scores\<close>

text \<open>
  \<open>gold_answers\<close> is never empty when the maximum is taken (an empty list has been
  replaced by the list of the empty string), so it is kept as its first element and the
  rest, and \<^verbatim>\<open>max\<close> folds over the rest.
\<close>

definition max_over :: "(string \<Rightarrow> real) \<Rightarrow> string \<times> string list \<Rightarrow> real" where
  "max_over f gold_answers = (case gold_answers of (a, as) \<Rightarrow> fold (\<lambda>b m. max m (f b)) as (f a))"

definition score_qa ::
  "(string, string) dict \<Rightarrow> qa \<Rightarrow> string list \<times> scores \<times> scores \<Rightarrow> string list \<times> scores \<times> scores"
where
  "score_qa preds q st =
     (case st of (out, exact_scores, f1_scores) \<Rightarrow>
        let qid = qa_id q;
            golds = filter (\<lambda>t. normalize_answer t \<noteq> []) (map answer_text (qa_answers q));
            gold_answers = (case golds of [] \<Rightarrow> ([], []) | a # as \<Rightarrow> (a, as))
        in case map_of preds qid of
             None \<Rightarrow> (out @ [''Missing prediction for '' @ qid], exact_scores, f1_scores)
           | Some a_pred \<Rightarrow>
               (out,
                AList.update qid (max_over (\<lambda>a. compute_exact a a_pred) gold_answers) exact_scores,
                AList.update qid (max_over (\<lambda>a. compute_f1 a a_pred) gold_answers) f1_scores))"

definition get_raw_scores ::
  "dataset \<Rightarrow> (string, string) dict \<Rightarrow> string list \<times> scores \<times> scores" where
  "get_raw_scores dataset preds =
     fold (\<lambda>p st. fold (score_qa preds) (qas p) st) dataset ([], [], [])"

subsection \<open>Applying a threshold\<close>

fun apply_loop ::
  "scores \<Rightarrow> (string, real) dict \<Rightarrow> (string, bool) dict \<Rightarrow> real \<Rightarrow> (string \<times> real) list
    \<Rightarrow> py_error + scores" where
  "apply_loop new_scores na_probs qid_to_has_ans na_prob_thresh [] = Inr new_scores"
| "apply_loop new_scores na_probs qid_to_has_ans na_prob_thresh ((qid, s) # items) =
     (case getitem na_probs qid of
        Inl e \<Rightarrow> Inl e
      | Inr p \<Rightarrow>
          let pred_na = (p > na_prob_thresh)
          in if pred_na
             then (case getitem qid_to_has_ans qid of
                     Inl e \<Rightarrow> Inl e
                   | Inr has_ans \<Rightarrow>
                       apply_loop (AList.update qid (if \<not> has_ans then 1 else 0) new_scores)
                         na_probs qid_to_has_ans na_prob_thresh items)
             else apply_loop (AList.update qid s new_scores)
                    na_probs qid_to_has_ans na_prob_thresh items)"

definition apply_no_ans_threshold ::
  "scores \<Rightarrow> (string, real) dict \<Rightarrow> (string, bool) dict \<Rightarrow> real \<Rightarrow> py_error + scores" where
  "apply_no_ans_threshold scores na_probs qid_to_has_ans na_prob_thresh =
     apply_loop [] na_probs qid_to_has_ans na_prob_thresh scores"

subsection \<open>Summaries\<close>

text \<open>\<^verbatim>\<open>sum(d[k] for k in qid_list)\<close>.\<close>

fun sum_items :: "scores \<Rightarrow> string list \<Rightarrow> py_error + real" where
  "sum_items d [] = Inr 0"
| "sum_items d (k # ks) =
     (case getitem d k of
        Inl e \<Rightarrow> Inl e
      | Inr v \<Rightarrow> (case sum_items d ks of Inl e \<Rightarrow> Inl e | Inr r \<Rightarrow> Inr (v + r)))"

definition eval_triple :: "real \<Rightarrow> real \<Rightarrow> nat \<Rightarrow> py_error + eval_dict" where
  "eval_triple exact_sum f1_sum n =
     bind (true_div (100 * exact_sum) (real n)) (\<lambda>exact.
     bind (true_div (100 * f1_sum) (real n)) (\<lambda>f1.
     Inr [(''exact'', exact), (''f1'', f1), (''total'', real n)]))"

definition make_eval_dict :: "scores \<Rightarrow> scores \<Rightarrow> string list option \<Rightarrow> py_error + eval_dict" where
  "make_eval_dict exact_scores f1_scores qid_list =
     (case qid_list of
        None \<Rightarrow>
          eval_triple (sum_list (map snd exact_scores)) (sum_list (map snd f1_scores))
            (length exact_scores)
      | Some [] \<Rightarrow>
          eval_triple (sum_list (map snd exact_scores)) (sum_list (map snd f1_scores))
            (length exact_scores)
      | Some (k # ks) \<Rightarrow>
          bind (sum_items exact_scores (k # ks)) (\<lambda>exact_sum.
          bind (true_div (100 * exact_sum) (real (length (k # ks)))) (\<lambda>exact.
          bind (sum_items f1_scores (k # ks)) (\<lambda>f1_sum.
          bind (true_div (100 * f1_sum) (real (length (k # ks)))) (\<lambda>f1.
          Inr [(''exact'', exact), (''f1'', f1), (''total'', real (length (k # ks)))])))))"

definition merge_eval :: "eval_dict \<Rightarrow> eval_dict \<Rightarrow> string \<Rightarrow> eval_dict" where
  "merge_eval main_eval new_eval prefix =
     fold (\<lambda>(k, v) m. AList.update (prefix @ ''_'' @ k) v m) new_eval main_eval"

subsection \<open>Precision and recall\<close>

text \<open>
  \<^verbatim>\<open>sorted(na_probs, key=lambda k: na_probs[k])\<close> is the list of keys in ascending order
  of their values, keys of equal value staying in dictionary order: the stable sort of
  the items by value, projected to the keys.
\<close>

definition sorted_by_value :: "(string, real) dict \<Rightarrow> string list" where
  "sorted_by_value na_probs = map fst (sort_key snd na_probs)"

record pr_state =
  true_pos :: real
  cur_p :: real
  cur_r :: real
  precisions :: "real list"
  recalls :: "real list"
  avg_prec :: real

text \<open>
  The loop of \<open>make_precision_recall_eval\<close>: \<open>i\<close> is the index of \<open>qid\<close>, and the
  test \<^verbatim>\<open>i == len(qid_list) - 1\<close> is that no key follows.
\<close>

fun pr_loop ::
  "scores \<Rightarrow> (string, real) dict \<Rightarrow> nat \<Rightarrow> (string, bool) dict \<Rightarrow> nat \<Rightarrow> pr_state \<Rightarrow> string list
    \<Rightarrow> py_error + pr_state" where
  "pr_loop scores na_probs num_true_pos qid_to_has_ans i st [] = Inr st"
| "pr_loop scores na_probs num_true_pos qid_to_has_ans i st (qid # rest) =
     (case getitem qid_to_has_ans qid of
        Inl e \<Rightarrow> Inl e
      | Inr has_ans \<Rightarrow>
     (case (if has_ans then bind (getitem scores qid) (\<lambda>s. Inr (true_pos st + s))
            else Inr (true_pos st)) of
        Inl e \<Rightarrow> Inl e
      | Inr tp \<Rightarrow>
     (case true_div tp (real num_true_pos) of
        Inl e \<Rightarrow> Inl e
      | Inr r \<Rightarrow>
     (case (case rest of
              [] \<Rightarrow> Inr True
            | nxt # _ \<Rightarrow> bind (getitem na_probs qid) (\<lambda>a.
                         bind (getitem na_probs nxt) (\<lambda>b. Inr (a \<noteq> b)))) of
        Inl e \<Rightarrow> Inl e
      | Inr threshold_here \<Rightarrow>
          let p = tp / real (i + 1);
              st1 = st\<lparr>true_pos := tp, cur_p := p, cur_r := r\<rparr>
          in if threshold_here
             then (case last_item (recalls st1) of
                     Inl e \<Rightarrow> Inl e
                   | Inr prev_r \<Rightarrow>
                       pr_loop scores na_probs num_true_pos qid_to_has_ans (i + 1)
                         (st1\<lparr>avg_prec := avg_prec st1 + p * (r - prev_r),
                               precisions := precisions st1 @ [p],
                               recalls := recalls st1 @ [r]\<rparr>)
                         rest)
             else pr_loop scores na_probs num_true_pos qid_to_has_ans (i + 1) st1 rest))))"

text \<open>
  \<open>plot_pr_curve\<close> starts with \<^verbatim>\<open>plt.step(...)\<close>: it raises \<^verbatim>\<open>NameError\<close> when
  the name \<open>plt\<close> is not bound. With the name bound it draws and saves the plot, which
  returns nothing and is an effect outside the model.
\<close>

definition plot_pr_curve ::
  "bool \<Rightarrow> real list \<Rightarrow> real list \<Rightarrow> string \<Rightarrow> string option \<Rightarrow> py_error + unit" where
  "plot_pr_curve plt precision_list recall_list out_image title =
     (if plt then Inr () else Inl (NameError ''plt''))"

text \<open>
  \<open>out_image\<close> and \<open>title\<close> default to \<open>None\<close>; \<^verbatim>\<open>if out_image:\<close> holds for a path
  that is not the empty string.
\<close>

definition make_precision_recall_eval ::
  "bool \<Rightarrow> scores \<Rightarrow> (string, real) dict \<Rightarrow> nat \<Rightarrow> (string, bool) dict \<Rightarrow> string option
    \<Rightarrow> string option \<Rightarrow> py_error + eval_dict" where
  "make_precision_recall_eval plt scores na_probs num_true_pos qid_to_has_ans out_image title =
     (let qid_list = sorted_by_value na_probs;
          st = \<lparr>true_pos = 0, cur_p = 1, cur_r = 0, precisions = [1], recalls = [0],
                avg_prec = 0\<rparr>
      in bind (pr_loop scores na_probs num_true_pos qid_to_has_ans 0 st qid_list) (\<lambda>st'.
         bind (case out_image of
                 None \<Rightarrow> Inr ()
               | Some path \<Rightarrow>
                   if path \<noteq> [] then plot_pr_curve plt (precisions st') (recalls st') path title
                   else Inr ()) (\<lambda>_.
         Inr [(''ap'', 100 * avg_prec st')])))"

text \<open>
  \<^verbatim>\<open>os.path.join(a, b)\<close> for paths of a POSIX system: \<open>b\<close> alone when it is absolute,
  else \<open>a\<close> and \<open>b\<close> with one separator between them unless \<open>a\<close> is empty or ends
  with one.
\<close>

definition os_path_join :: "string \<Rightarrow> string \<Rightarrow> string" where
  "os_path_join a b =
     (if b \<noteq> [] \<and> hd b = CHR ''/'' then b
      else if a = [] \<or> last a = CHR ''/'' then a @ b
      else a @ ''/'' @ b)"

text \<open>
  \<open>out_image_dir\<close> is \<open>None\<close> or a path. \<^verbatim>\<open>os.path.join(None, ...)\<close> raises
  \<^verbatim>\<open>TypeError\<close>; it is evaluated after the test of \<open>num_true_pos\<close>. The function
  mutates \<open>main_eval\<close>; the model returns the printed lines and the new \<open>main_eval\<close>.
\<close>

definition run_precision_recall_analysis ::
  "bool \<Rightarrow> eval_dict \<Rightarrow> scores \<Rightarrow> scores \<Rightarrow> (string, real) dict \<Rightarrow> (string, bool) dict
    \<Rightarrow> string option \<Rightarrow> string list \<times> (py_error + eval_dict)" where
  "run_precision_recall_analysis plt main_eval exact_raw f1_raw na_probs qid_to_has_ans
       out_image_dir =
     (let num_true_pos = length (filter (\<lambda>(k, v). v) qid_to_has_ans)
      in if num_true_pos = 0 then ([''Not returning anything''], Inr main_eval)
         else ([],
           case out_image_dir of
             None \<Rightarrow> Inl TypeError
           | Some dir \<Rightarrow>
               bind (make_precision_recall_eval plt exact_raw na_probs num_true_pos qid_to_has_ans
                       (Some (os_path_join dir ''pr_exact.png''))
                       (Some ''Precision-Recall curve for Exact Match score''))
                 (\<lambda>pr_exact.
               bind (make_precision_recall_eval plt f1_raw na_probs num_true_pos qid_to_has_ans
                       (Some (os_path_join dir ''pr_f1.png''))
                       (Some ''Precision-Recall curve for F1 score''))
                 (\<lambda>pr_f1.
               let oracle_scores = map (\<lambda>(k, v). (k, if v then 1 else 0)) qid_to_has_ans
               in bind (make_precision_recall_eval plt oracle_scores na_probs num_true_pos
                         qid_to_has_ans
                         (Some (os_path_join dir ''pr_oracle.png''))
                         (Some ''Oracle Precision-Recall curve (binary task of HasAns vs. NoAns)''))
                 (\<lambda>pr_oracle.
               Inr (merge_eval (merge_eval (merge_eval main_eval pr_exact ''pr_exact'')
                                 pr_f1 ''pr_f1'') pr_oracle ''pr_oracle''))))))"

subsection \<open>The best threshold\<close>

fun best_loop ::
  "(string, string) dict \<Rightarrow> scores \<Rightarrow> (string, real) dict \<Rightarrow> (string, bool) dict
    \<Rightarrow> real \<times> real \<times> real \<Rightarrow> string list \<Rightarrow> py_error + real \<times> real \<times> real" where
  "best_loop preds scores na_probs qid_to_has_ans st [] = Inr st"
| "best_loop preds scores na_probs qid_to_has_ans (cur_score, best_score, best_thresh) (qid # rest) =
     (if \<not> contains scores qid
      then best_loop preds scores na_probs qid_to_has_ans (cur_score, best_score, best_thresh) rest
      else
     (case getitem qid_to_has_ans qid of
        Inl e \<Rightarrow> Inl e
      | Inr has_ans \<Rightarrow>
     (case (if has_ans then getitem scores qid
            else bind (getitem preds qid) (\<lambda>a. Inr (if a \<noteq> [] then - 1 else 0))) of
        Inl e \<Rightarrow> Inl e
      | Inr diff \<Rightarrow>
          if cur_score + diff > best_score
          then (case getitem na_probs qid of
                  Inl e \<Rightarrow> Inl e
                | Inr p \<Rightarrow>
                    best_loop preds scores na_probs qid_to_has_ans
                      (cur_score + diff, cur_score + diff, p) rest)
          else best_loop preds scores na_probs qid_to_has_ans
                 (cur_score + diff, best_score, best_thresh) rest)))"

definition find_best_thresh ::
  "(string, string) dict \<Rightarrow> scores \<Rightarrow> (string, real) dict \<Rightarrow> (string, bool) dict
    \<Rightarrow> py_error + real \<times> real" where
  "find_best_thresh preds scores na_probs qid_to_has_ans =
     (let num_no_ans = length (filter (\<lambda>(k, v). \<not> v) qid_to_has_ans);
          cur_score = real num_no_ans;
          best_score = cur_score;
          best_thresh = 0;
          qid_list = sorted_by_value na_probs
      in bind (best_loop preds scores na_probs qid_to_has_ans
                 (cur_score, best_score, best_thresh) qid_list)
           (\<lambda>(cur_score, best_score, best_thresh).
         bind (true_div (100 * best_score) (real (length scores))) (\<lambda>pct.
         Inr (pct, best_thresh))))"

definition find_all_best_thresh ::
  "eval_dict \<Rightarrow> (string, string) dict \<Rightarrow> scores \<Rightarrow> scores \<Rightarrow> (string, real) dict
    \<Rightarrow> (string, bool) dict \<Rightarrow> py_error + eval_dict" where
  "find_all_best_thresh main_eval preds exact_raw f1_raw na_probs qid_to_has_ans =
     bind (find_best_thresh preds exact_raw na_probs qid_to_has_ans) (\<lambda>(best_exact, exact_thresh).
     bind (find_best_thresh preds f1_raw na_probs qid_to_has_ans) (\<lambda>(best_f1, f1_thresh).
     Inr (AList.update ''best_f1_thresh'' f1_thresh
           (AList.update ''best_f1'' best_f1
             (AList.update ''best_exact_thresh'' exact_thresh
               (AList.update ''best_exact'' best_exact main_eval))))))"

subsection \<open>evaluate\<close>

text \<open>\<^verbatim>\<open>s.split(sep)\<close> for a separator of one character; \<open>cur\<close> is the piece being read.\<close>

fun split_sep :: "char \<Rightarrow> string \<Rightarrow> string \<Rightarrow> string list" where
  "split_sep sep cur [] = [cur]"
| "split_sep sep cur (c # cs) =
     (if c = sep then cur # split_sep sep [] cs else split_sep sep (cur @ [c]) cs)"

text \<open>
  The files are read before anything else: \<open>dataset\<close> and \<open>preds\<close> are what
  \<^verbatim>\<open>json.load\<close> returns for \<open>dataset_file\<close> and \<open>prediction_file\<close>, and
  \<open>na_probs_file\<close> is \<open>None\<close> or the mapping loaded from that file. The result is the
  printed lines and either the exception raised or the triple returned.
\<close>

definition evaluate ::
  "bool \<Rightarrow> dataset \<Rightarrow> string \<Rightarrow> (string, string) dict \<Rightarrow> (string, real) dict option
    \<Rightarrow> string option \<Rightarrow> bool \<Rightarrow> string list \<times> (py_error + real \<times> real \<times> eval_dict)" where
  "evaluate plt dataset prediction_file preds na_probs_file img_out_dir save_f1_thres =
     (let na_probs = na_probs_file;
          na_probs = map (\<lambda>k. (k, 0 :: real)) (keys preds);
          qid_to_has_ans = make_qid_to_has_ans dataset;
          has_ans_qids = map fst (filter (\<lambda>(k, v). v) qid_to_has_ans);
          no_ans_qids = map fst (filter (\<lambda>(k, v). \<not> v) qid_to_has_ans)
      in case get_raw_scores dataset preds of (out_raw, exact_raw, f1_raw) \<Rightarrow>
         (case
            bind (apply_no_ans_threshold exact_raw na_probs qid_to_has_ans 1) (\<lambda>exact_thresh.
            bind (apply_no_ans_threshold f1_raw na_probs qid_to_has_ans 1) (\<lambda>f1_thresh.
            bind (make_eval_dict exact_thresh f1_thresh None) (\<lambda>out_eval.
            bind (if has_ans_qids \<noteq> []
                  then bind (make_eval_dict exact_thresh f1_thresh (Some has_ans_qids))
                         (\<lambda>has_ans_eval. Inr (merge_eval out_eval has_ans_eval ''HasAns''))
                  else Inr out_eval) (\<lambda>out_eval.
            bind (if no_ans_qids \<noteq> []
                  then bind (make_eval_dict exact_thresh f1_thresh (Some no_ans_qids))
                         (\<lambda>no_ans_eval. Inr (merge_eval out_eval no_ans_eval ''NoAns''))
                  else Inr out_eval) (\<lambda>out_eval.
            Inr out_eval)))))
          of
            Inl e \<Rightarrow> (out_raw, Inl e)
          | Inr out_eval \<Rightarrow>
              (case (if na_probs_file \<noteq> None
                     then (case run_precision_recall_analysis plt out_eval exact_raw f1_raw na_probs
                                  qid_to_has_ans img_out_dir of
                             (out_pr, r) \<Rightarrow> (''Run PR analysis'' # out_pr, r))
                     else ([], Inr out_eval)) of
                 (out_pr, Inl e) \<Rightarrow> (out_raw @ out_pr, Inl e)
               | (out_pr, Inr out_eval) \<Rightarrow>
                   let out_save =
                         (if save_f1_thres
                          then (let paths = split_sep CHR ''/'' [] prediction_file;
                                    out_file = join ''/'' (butlast paths) @ ''/f1_thres.json''
                                in [''Saving f1 thres...'', ''File saved to '' @ out_file])
                          else [])
                   in (out_raw @ out_pr @ out_save,
                       bind (getitem out_eval ''exact'') (\<lambda>exact.
                       bind (getitem out_eval ''f1'') (\<lambda>f1.
                       Inr (exact, f1, out_eval)))))))"

section \<open>Properties\<close>

subsection \<open>Pairwise scores\<close>

text \<open>
  C4. When the token sequence of the gold answer or of the prediction is empty,
  \<open>compute_f1\<close> returns 1 if both are empty and 0 otherwise. In particular it is 1 for
  two empty strings, and 0 for the empty string against \<open>something\<close>, either way round.
\<close>

theorem compute_f1_empty_tokens:
  "(get_tokens a_gold = [] \<or> get_tokens a_pred = [] \<longrightarrow>
      compute_f1 a_gold a_pred = (if get_tokens a_gold = [] \<and> get_tokens a_pred = [] then 1 else 0))
   \<and> compute_f1 '''' '''' = 1
   \<and> compute_f1 '''' ''something'' = 0
   \<and> compute_f1 ''something'' '''' = 0"
proof (intro conjI impI)
  assume "get_tokens a_gold = [] \<or> get_tokens a_pred = []"
  then show "compute_f1 a_gold a_pred = (if get_tokens a_gold = [] \<and> get_tokens a_pred = [] then 1 else 0)"
    by (auto simp: compute_f1_def Let_def)
next
  show "compute_f1 '''' '''' = 1" by code_simp
  show "compute_f1 '''' ''something'' = 0" by code_simp
  show "compute_f1 ''something'' '''' = 0" by code_simp
qed

theorem compute_f1_empty_tokens_witness:
  "get_tokens ''the'' = [] \<and> get_tokens ''cat'' \<noteq> [] \<and> compute_f1 ''the'' ''cat'' = 0"
proof -
  have g: "get_tokens ''the'' = []" by code_simp
  have p: "get_tokens ''cat'' \<noteq> []" by code_simp
  from compute_f1_empty_tokens [of "''the''" "''cat''"] g p show ?thesis by simp
qed

text \<open>
  C5, as stated: for gold \<open>a b c\<close> and prediction \<open>b c d\<close>, \<open>compute_f1\<close> would return
  2/3. It does not.
\<close>

theorem compute_f1_abc_bcd_counterexample: "compute_f1 ''a b c'' ''b c d'' \<noteq> 2 / 3"
  by code_simp

text \<open>
  C5, amended. Normalisation removes the article \<open>a\<close> from the gold answer, whose tokens
  are \<open>b\<close> and \<open>c\<close>. The two token lists share 2 tokens, precision is 2/3, recall is
  2/2, and \<open>compute_f1\<close> returns 4/5.
\<close>

theorem compute_f1_abc_bcd:
  "get_tokens ''a b c'' = [''b'', ''c'']
   \<and> get_tokens ''b c d'' = [''b'', ''c'', ''d'']
   \<and> values_sum (counter_and (Counter (get_tokens ''a b c'')) (Counter (get_tokens ''b c d''))) = 2
   \<and> compute_f1 ''a b c'' ''b c d'' = 4 / 5"
  by code_simp

subsection \<open>Precision-recall analysis without answerable questions\<close>

text \<open>
  C8. When no question has an answer, \<open>run_precision_recall_analysis\<close> computes no
  score: it prints one line and leaves \<open>main_eval\<close> as it was, so no \<open>pr_\<close> key is
  added.
\<close>

theorem pr_analysis_skipped:
  "length (filter (\<lambda>(k, v). v) qid_to_has_ans) = 0 \<Longrightarrow>
   run_precision_recall_analysis plt main_eval exact_raw f1_raw na_probs qid_to_has_ans
       out_image_dir
     = ([''Not returning anything''], Inr main_eval)"
  by (simp add: run_precision_recall_analysis_def)

theorem pr_analysis_skipped_witness:
  "length (filter (\<lambda>(k, v). v) [(''q1'', False), (''q2'', False)]) = 0
   \<and> run_precision_recall_analysis False [(''exact'', 100), (''f1'', 100), (''total'', 2)]
        [(''q1'', 1), (''q2'', 1)] [(''q1'', 1), (''q2'', 1)] [(''q1'', 0), (''q2'', 0)]
        [(''q1'', False), (''q2'', False)] (Some ''img'')
      = ([''Not returning anything''], Inr [(''exact'', 100), (''f1'', 100), (''total'', 2)])"
  using pr_analysis_skipped [of "[(''q1'', False), (''q2'', False)]" False
      "[(''exact'', 100), (''f1'', 100), (''total'', 2)]"
      "[(''q1'', 1), (''q2'', 1)]" "[(''q1'', 1), (''q2'', 1)]" "[(''q1'', 0), (''q2'', 0)]" "Some ''img''"]
  by simp

subsection \<open>No scored question\<close>

lemma fold_score_qa_missing:
  "\<forall>q \<in> set qs. map_of preds (qa_id q) = None \<Longrightarrow>
   \<exists>out'. fold (score_qa preds) qs (out, [], []) = (out', [], [])"
  by (induction qs arbitrary: out) (auto simp: score_qa_def Let_def)

lemma get_raw_scores_missing_aux:
  "\<forall>p \<in> set ds. \<forall>q \<in> set (qas p). map_of preds (qa_id q) = None \<Longrightarrow>
   \<exists>out'. fold (\<lambda>p st. fold (score_qa preds) (qas p) st) ds (out, [], []) = (out', [], [])"
proof (induction ds arbitrary: out)
  case Nil
  then show ?case by simp
next
  case (Cons p ds)
  from Cons.prems obtain out1 where "fold (score_qa preds) (qas p) (out, [], []) = (out1, [], [])"
    using fold_score_qa_missing [of "qas p" preds out] by auto
  moreover from Cons.prems obtain out2 where
    "fold (\<lambda>p st. fold (score_qa preds) (qas p) st) ds (out1, [], []) = (out2, [], [])"
    using Cons.IH [of out1] by auto
  ultimately show ?case by simp
qed

lemma get_raw_scores_missing:
  "\<forall>p \<in> set dataset. \<forall>q \<in> set (qas p). \<not> contains preds (qa_id q) \<Longrightarrow>
   \<exists>out. get_raw_scores dataset preds = (out, [], [])"
  unfolding get_raw_scores_def contains_def using get_raw_scores_missing_aux [of dataset preds "[]"]
  by simp

text \<open>
  C10. When no question of the dataset has a prediction, the score mappings are empty,
  \<open>make_eval_dict\<close> without a list of ids divides by zero, and \<open>evaluate\<close> ends with
  \<open>ZeroDivisionError\<close>.
\<close>

theorem evaluate_no_scores_division_by_zero:
  assumes "\<forall>p \<in> set dataset. \<forall>q \<in> set (qas p). \<not> contains preds (qa_id q)"
  shows "make_eval_dict [] [] None = Inl ZeroDivisionError
    \<and> snd (evaluate plt dataset prediction_file preds na_probs_file img_out_dir save_f1_thres)
        = Inl ZeroDivisionError"
proof -
  from assms obtain out where r: "get_raw_scores dataset preds = (out, [], [])"
    using get_raw_scores_missing by blast
  have m: "make_eval_dict [] [] None = Inl ZeroDivisionError"
    by (simp add: make_eval_dict_def eval_triple_def true_div_def bind_def)
  have "snd (evaluate plt dataset prediction_file preds na_probs_file img_out_dir save_f1_thres)
        = Inl ZeroDivisionError"
    by (simp add: evaluate_def r apply_no_ans_threshold_def m bind_def Let_def)
  with m show ?thesis by simp
qed

theorem evaluate_no_scores_division_by_zero_witness:
  "evaluate False [\<lparr>qas = [\<lparr>qa_id = ''q1'', qa_answers = []\<rparr>]\<rparr>] ''preds.json'' [] None None False
     = ([''Missing prediction for q1''], Inl ZeroDivisionError)"
proof -
  have h: "\<forall>p \<in> set [\<lparr>qas = [\<lparr>qa_id = ''q1'', qa_answers = []\<rparr>]\<rparr>]. \<forall>q \<in> set (qas p). \<not> contains [] (qa_id q)"
    by (simp add: contains_def)
  have o: "fst (evaluate False [\<lparr>qas = [\<lparr>qa_id = ''q1'', qa_answers = []\<rparr>]\<rparr>] ''preds.json'' [] None None False)
      = [''Missing prediction for q1'']"
    by code_simp
  from evaluate_no_scores_division_by_zero [OF h, of False "''preds.json''" None None False] o
  show ?thesis by (simp add: prod_eq_iff)
qed

subsection \<open>Dictionaries\<close>

lemma update_fresh: "k \<notin> fst ` set al \<Longrightarrow> AList.update k v al = al @ [(k, v)]"
  by (induction al) auto

lemma contains_iff: "contains d k \<longleftrightarrow> k \<in> set (keys d)"
  by (simp add: contains_def keys_def map_of_eq_None_iff)

lemma map_of_map_keyed:
  "map_of (map (\<lambda>(k, v). (k, f k v)) xs) k = map_option (f k) (map_of xs k)"
  by (induction xs) auto

subsection \<open>The threshold applied to a score mapping\<close>

lemma apply_loop_ok:
  assumes "distinct (map fst (acc @ items))"
    and "\<forall>(qid, s) \<in> set items.
           \<exists>p. map_of na_probs qid = Some p \<and> (p > t \<longrightarrow> map_of h qid \<noteq> None)"
  shows "apply_loop acc na_probs h t items =
           Inr (acc @ map (\<lambda>(qid, s). (qid, if the (map_of na_probs qid) > t
                                              then (if the (map_of h qid) then 0 else 1) else s)) items)"
  using assms
proof (induction items arbitrary: acc)
  case Nil
  then show ?case by simp
next
  case (Cons item items)
  obtain qid s where item: "item = (qid, s)" by (cases item)
  from Cons.prems(2) item obtain p where p: "map_of na_probs qid = Some p"
    and hp: "p > t \<longrightarrow> map_of h qid \<noteq> None" by auto
  from Cons.prems(1) item have fresh: "qid \<notin> fst ` set acc" by auto
  have d: "\<And>v. distinct (map fst ((acc @ [(qid, v)]) @ items))"
    using Cons.prems(1) item by auto
  have rest: "\<forall>(qid, s) \<in> set items.
           \<exists>p. map_of na_probs qid = Some p \<and> (p > t \<longrightarrow> map_of h qid \<noteq> None)"
    using Cons.prems(2) by auto
  show ?case
  proof (cases "p > t")
    case True
    with hp obtain b where b: "map_of h qid = Some b" by auto
    show ?thesis
      using True p b item Cons.IH [OF d rest] update_fresh [OF fresh]
      by (simp add: getitem_def)
  next
    case False
    show ?thesis
      using False p item Cons.IH [OF d rest] update_fresh [OF fresh]
      by (simp add: getitem_def)
  qed
qed

lemma apply_loop_missing_entry:
  "(qid, s) \<in> set items \<Longrightarrow>
   map_of na_probs qid = None
     \<or> (\<exists>p. map_of na_probs qid = Some p \<and> p > t \<and> map_of h qid = None) \<Longrightarrow>
   \<exists>k. apply_loop acc na_probs h t items = Inl (KeyError k)"
proof (induction items arbitrary: acc)
  case Nil
  then show ?case by simp
next
  case (Cons item items)
  obtain q' s' where item: "item = (q', s')" by (cases item)
  show ?case
  proof (cases "(qid, s) = item")
    case True
    with item Cons.prems(2) show ?thesis by (auto simp: getitem_def)
  next
    case False
    with Cons.prems(1) have "(qid, s) \<in> set items" by simp
    from Cons.IH [OF this Cons.prems(2)] item show ?thesis
      by (auto simp: getitem_def split: option.splits)
  qed
qed

text \<open>
  C3, as stated: for every score mapping, probability mapping, has-answer mapping and
  threshold, \<open>apply_no_ans_threshold\<close> would return a mapping with the ids of the
  scores. A scored id without a probability raises \<open>KeyError\<close> instead.
\<close>

theorem apply_no_ans_threshold_counterexample:
  "apply_no_ans_threshold [(''q'', 1)] [] [(''q'', True)] 0 = Inl (KeyError ''q'')"
  by (simp add: apply_no_ans_threshold_def getitem_def)

lemma apply_no_ans_threshold_well_formed:
  assumes "distinct (keys scores)"
    and "\<forall>qid \<in> set (keys scores). contains na_probs qid"
    and "\<forall>qid \<in> set (keys scores). \<forall>p. map_of na_probs qid = Some p \<and> p > t
           \<longrightarrow> contains qid_to_has_ans qid"
  shows "\<exists>new_scores.
           apply_no_ans_threshold scores na_probs qid_to_has_ans t = Inr new_scores
           \<and> keys new_scores = keys scores
           \<and> (\<forall>qid s p. map_of scores qid = Some s \<and> map_of na_probs qid = Some p \<longrightarrow>
                map_of new_scores qid =
                  Some (if p > t then (if map_of qid_to_has_ans qid = Some True then 0 else 1)
                        else s))"
proof -
  let ?g = "\<lambda>qid s. if the (map_of na_probs qid) > t
                     then (if the (map_of qid_to_has_ans qid) then 0 else 1) else s"
  let ?new = "map (\<lambda>(qid, s). (qid, ?g qid s)) scores"
  have pre: "\<forall>(qid, s) \<in> set scores.
           \<exists>p. map_of na_probs qid = Some p \<and> (p > t \<longrightarrow> map_of qid_to_has_ans qid \<noteq> None)"
  proof (clarify)
    fix qid s assume "(qid, s) \<in> set scores"
    then have k: "qid \<in> set (keys scores)" by (force simp: keys_def)
    with assms(2) obtain p where p: "map_of na_probs qid = Some p"
      by (auto simp: contains_def)
    with assms(3) k have "p > t \<longrightarrow> map_of qid_to_has_ans qid \<noteq> None"
      by (auto simp: contains_def)
    with p show "\<exists>p. map_of na_probs qid = Some p \<and> (p > t \<longrightarrow> map_of qid_to_has_ans qid \<noteq> None)"
      by blast
  qed
  have run: "apply_no_ans_threshold scores na_probs qid_to_has_ans t = Inr ?new"
    unfolding apply_no_ans_threshold_def
    using apply_loop_ok [of "[]" scores na_probs t qid_to_has_ans] assms(1) pre
    by (simp add: keys_def)
  have ks: "keys ?new = keys scores"
    by (simp add: keys_def comp_def case_prod_unfold)
  have vals: "\<forall>qid s p. map_of scores qid = Some s \<and> map_of na_probs qid = Some p \<longrightarrow>
                map_of ?new qid =
                  Some (if p > t then (if map_of qid_to_has_ans qid = Some True then 0 else 1)
                        else s)"
  proof (intro allI impI)
    fix qid s p
    assume a: "map_of scores qid = Some s \<and> map_of na_probs qid = Some p"
    then have k: "qid \<in> set (keys scores)"
      by (metis contains_def contains_iff option.distinct(1))
    have m: "map_of ?new qid = Some (?g qid s)"
      using a by (simp add: map_of_map_keyed)
    show "map_of ?new qid =
            Some (if p > t then (if map_of qid_to_has_ans qid = Some True then 0 else 1) else s)"
    proof (cases "p > t")
      case True
      with assms(3) k a obtain b where "map_of qid_to_has_ans qid = Some b"
        by (auto simp: contains_def)
      with True a m show ?thesis by simp
    next
      case False
      with a m show ?thesis by simp
    qed
  qed
  from run ks vals show ?thesis by blast
qed

lemma apply_no_ans_threshold_ill_formed:
  assumes "\<not> ((\<forall>qid \<in> set (keys scores). contains na_probs qid)
             \<and> (\<forall>qid \<in> set (keys scores). \<forall>p. map_of na_probs qid = Some p \<and> p > t
                   \<longrightarrow> contains qid_to_has_ans qid))"
  shows "\<exists>k. apply_no_ans_threshold scores na_probs qid_to_has_ans t = Inl (KeyError k)"
proof -
  from assms obtain qid where k: "qid \<in> set (keys scores)"
    and bad: "map_of na_probs qid = None
       \<or> (\<exists>p. map_of na_probs qid = Some p \<and> p > t \<and> map_of qid_to_has_ans qid = None)"
    by (auto simp: contains_def)
  from k obtain s where "(qid, s) \<in> set scores" by (auto simp: keys_def)
  then show ?thesis
    unfolding apply_no_ans_threshold_def using bad by (rule apply_loop_missing_entry)
qed

text \<open>
  C3, amended. Take a score mapping, a probability mapping, a has-answer mapping and a
  threshold. When every scored id has a no-answer probability, and every scored id
  whose probability exceeds the threshold has a has-answer entry,
  \<open>apply_no_ans_threshold\<close> returns a mapping with the ids of the scores, in which an
  id whose probability strictly exceeds the threshold has the score 1 if the question has
  no answer and 0 if it has one, and every other id keeps its score. When one of those
  entries is missing, it raises \<open>KeyError\<close> and returns no mapping.
\<close>

theorem apply_no_ans_threshold_adjusts:
  assumes "distinct (keys scores)"
  shows "((\<forall>qid \<in> set (keys scores). contains na_probs qid)
          \<and> (\<forall>qid \<in> set (keys scores). \<forall>p. map_of na_probs qid = Some p \<and> p > t
                \<longrightarrow> contains qid_to_has_ans qid)
          \<longrightarrow> (\<exists>new_scores.
                 apply_no_ans_threshold scores na_probs qid_to_has_ans t = Inr new_scores
                 \<and> keys new_scores = keys scores
                 \<and> (\<forall>qid s p. map_of scores qid = Some s \<and> map_of na_probs qid = Some p \<longrightarrow>
                      map_of new_scores qid =
                        Some (if p > t
                              then (if map_of qid_to_has_ans qid = Some True then 0 else 1)
                              else s))))
       \<and> (\<not> ((\<forall>qid \<in> set (keys scores). contains na_probs qid)
               \<and> (\<forall>qid \<in> set (keys scores). \<forall>p. map_of na_probs qid = Some p \<and> p > t
                     \<longrightarrow> contains qid_to_has_ans qid))
          \<longrightarrow> (\<exists>k. apply_no_ans_threshold scores na_probs qid_to_has_ans t
                       = Inl (KeyError k)))"
proof (intro conjI impI)
  assume "(\<forall>qid \<in> set (keys scores). contains na_probs qid)
          \<and> (\<forall>qid \<in> set (keys scores). \<forall>p. map_of na_probs qid = Some p \<and> p > t
                \<longrightarrow> contains qid_to_has_ans qid)"
  then show "\<exists>new_scores.
                 apply_no_ans_threshold scores na_probs qid_to_has_ans t = Inr new_scores
                 \<and> keys new_scores = keys scores
                 \<and> (\<forall>qid s p. map_of scores qid = Some s \<and> map_of na_probs qid = Some p \<longrightarrow>
                      map_of new_scores qid =
                        Some (if p > t
                              then (if map_of qid_to_has_ans qid = Some True then 0 else 1)
                              else s))"
    using apply_no_ans_threshold_well_formed [OF assms, of na_probs t qid_to_has_ans] by blast
next
  assume "\<not> ((\<forall>qid \<in> set (keys scores). contains na_probs qid)
               \<and> (\<forall>qid \<in> set (keys scores). \<forall>p. map_of na_probs qid = Some p \<and> p > t
                     \<longrightarrow> contains qid_to_has_ans qid))"
  then show "\<exists>k. apply_no_ans_threshold scores na_probs qid_to_has_ans t = Inl (KeyError k)"
    by (rule apply_no_ans_threshold_ill_formed)
qed

theorem apply_no_ans_threshold_adjusts_witness:
  "(\<exists>new_scores.
     apply_no_ans_threshold [(''a'', 1 / 2), (''b'', 1 / 4), (''c'', 1)]
       [(''a'', 9 / 10), (''b'', 1 / 10), (''c'', 8 / 10)] [(''a'', False), (''c'', True)] (1 / 2)
       = Inr new_scores
     \<and> keys new_scores = [''a'', ''b'', ''c'']
     \<and> map_of new_scores ''a'' = Some 1
     \<and> map_of new_scores ''b'' = Some (1 / 4)
     \<and> map_of new_scores ''c'' = Some 0)
   \<and> (\<exists>k. apply_no_ans_threshold [(''a'', 1 / 2), (''b'', 1 / 4), (''c'', 1)]
              [(''a'', 9 / 10), (''b'', 1 / 10), (''c'', 8 / 10)] [(''a'', False)] (1 / 2)
            = Inl (KeyError k))"
proof -
  let ?scores = "[(''a'', 1 / 2), (''b'', 1 / 4), (''c'', 1 :: real)]"
  let ?probs = "[(''a'', 9 / 10), (''b'', 1 / 10), (''c'', 8 / 10 :: real)]"
  let ?has = "[(''a'', False), (''c'', True)]"
  let ?short = "[(''a'', False)]"
  have 1: "distinct (keys ?scores)" by (simp add: keys_def)
  have 2: "(\<forall>qid \<in> set (keys ?scores). contains ?probs qid)
      \<and> (\<forall>qid \<in> set (keys ?scores). \<forall>p. map_of ?probs qid = Some p \<and> p > 1 / 2
             \<longrightarrow> contains ?has qid)"
    by (simp add: keys_def contains_iff)
  from apply_no_ans_threshold_adjusts [OF 1, of ?probs "1 / 2" ?has] 2 obtain new_scores where
    r: "apply_no_ans_threshold ?scores ?probs ?has (1 / 2) = Inr new_scores"
    and k: "keys new_scores = keys ?scores"
    and v: "\<forall>qid s p. map_of ?scores qid = Some s \<and> map_of ?probs qid = Some p \<longrightarrow>
                map_of new_scores qid =
                  Some (if p > 1 / 2 then (if map_of ?has qid = Some True then 0 else 1) else s)"
    by blast
  from v [rule_format, of "''a''" "1 / 2" "9 / 10"] have a: "map_of new_scores ''a'' = Some 1" by simp
  from v [rule_format, of "''b''" "1 / 4" "1 / 10"] have b: "map_of new_scores ''b'' = Some (1 / 4)" by simp
  from v [rule_format, of "''c''" "1" "8 / 10"] have c: "map_of new_scores ''c'' = Some 0" by simp
  have 3: "\<not> ((\<forall>qid \<in> set (keys ?scores). contains ?probs qid)
      \<and> (\<forall>qid \<in> set (keys ?scores). \<forall>p. map_of ?probs qid = Some p \<and> p > 1 / 2
             \<longrightarrow> contains ?short qid))"
  proof -
    have "''c'' \<in> set (keys ?scores)" by (simp add: keys_def)
    moreover have "map_of ?probs ''c'' = Some (8 / 10) \<and> (8 / 10 :: real) > 1 / 2" by simp
    moreover have "\<not> contains ?short ''c''" by (simp add: contains_iff keys_def)
    ultimately show ?thesis by blast
  qed
  from apply_no_ans_threshold_adjusts [OF 1, of ?probs "1 / 2" ?short] 3
  have e: "\<exists>k. apply_no_ans_threshold ?scores ?probs ?short (1 / 2) = Inl (KeyError k)"
    by blast
  from r k a b c e show ?thesis by (simp add: keys_def)
qed

subsection \<open>An id without a no-answer probability\<close>

lemma contains_update_other:
  "q \<noteq> qid \<Longrightarrow> contains (AList.update qid v scores) q = contains scores q"
  by (simp add: contains_def update_conv')

lemma getitem_update_other:
  "q \<noteq> qid \<Longrightarrow> getitem (AList.update qid v scores) q = getitem scores q"
  by (simp add: getitem_def update_conv')

lemma best_loop_update_other:
  "qid \<notin> set qs \<Longrightarrow>
   best_loop preds (AList.update qid v scores) na_probs h st qs
     = best_loop preds (AList.update qid v' scores) na_probs h st qs"
proof (induction qs arbitrary: st)
  case Nil
  then show ?case by simp
next
  case (Cons q qs)
  obtain c b th where st: "st = (c, b, th)" by (cases st)
  from Cons.prems have ne: "q \<noteq> qid" and rest: "qid \<notin> set qs" by auto
  show ?case
    unfolding st
    by (simp add: contains_update_other [OF ne] getitem_update_other [OF ne] Cons.IH [OF rest]
          split: sum.splits)
qed

lemma set_sorted_by_value: "set (sorted_by_value na_probs) = set (keys na_probs)"
  by (simp add: sorted_by_value_def keys_def)

lemma length_update_same:
  "length (AList.update k v al) = length (AList.update k v' al)"
  by (induction al) auto

text \<open>
  C9, as stated: an id that is scored but has no no-answer probability would be treated
  as if its probability were 0. With the probability 0 the score of \<open>q\<close> below is kept
  and \<open>find_best_thresh\<close> counts it; without a probability \<open>apply_no_ans_threshold\<close>
  raises \<open>KeyError\<close> and \<open>find_best_thresh\<close> does not count it.
\<close>

theorem missing_probability_counterexample:
  "apply_no_ans_threshold [(''q'', 1)] [] [(''q'', True)] 0 = Inl (KeyError ''q'')
   \<and> apply_no_ans_threshold [(''q'', 1)] [(''q'', 0)] [(''q'', True)] 0 = Inr [(''q'', 1)]
   \<and> find_best_thresh [(''q'', ''x'')] [(''q'', 1)] [] [(''q'', True)] = Inr (0, 0)
   \<and> find_best_thresh [(''q'', ''x'')] [(''q'', 1)] [(''q'', 0)] [(''q'', True)] = Inr (100, 0)"
  by (simp add: apply_no_ans_threshold_def find_best_thresh_def getitem_def contains_def
        sorted_by_value_def bind_def true_div_def)

text \<open>
  C9, amended. Nothing gives a missing probability a default. For an id that is scored
  but has no no-answer probability, \<open>apply_no_ans_threshold\<close> raises \<open>KeyError\<close>
  whatever the threshold; \<open>find_best_thresh\<close> runs over the ids of the probability
  mapping only, so that its result does not depend on the score of such an id.
\<close>

theorem missing_probability_not_defaulted:
  "(contains scores qid \<and> \<not> contains na_probs qid \<longrightarrow>
      (\<exists>k. apply_no_ans_threshold scores na_probs qid_to_has_ans t = Inl (KeyError k)))
   \<and> (\<not> contains na_probs qid \<longrightarrow>
        find_best_thresh preds (AList.update qid v scores) na_probs qid_to_has_ans
          = find_best_thresh preds (AList.update qid v' scores) na_probs qid_to_has_ans)"
proof (intro conjI impI)
  assume a: "contains scores qid \<and> \<not> contains na_probs qid"
  then obtain s where "(qid, s) \<in> set scores"
    by (auto simp: contains_def dest: map_of_SomeD)
  moreover from a have "map_of na_probs qid = None
      \<or> (\<exists>p. map_of na_probs qid = Some p \<and> p > t \<and> map_of qid_to_has_ans qid = None)"
    by (simp add: contains_def)
  ultimately show "\<exists>k. apply_no_ans_threshold scores na_probs qid_to_has_ans t = Inl (KeyError k)"
    unfolding apply_no_ans_threshold_def by (rule apply_loop_missing_entry)
next
  assume "\<not> contains na_probs qid"
  then have "qid \<notin> set (sorted_by_value na_probs)"
    by (simp add: set_sorted_by_value contains_iff)
  then show "find_best_thresh preds (AList.update qid v scores) na_probs qid_to_has_ans
          = find_best_thresh preds (AList.update qid v' scores) na_probs qid_to_has_ans"
    unfolding find_best_thresh_def Let_def
    using best_loop_update_other [of qid "sorted_by_value na_probs" preds v scores na_probs qid_to_has_ans _ v']
      length_update_same [of qid v scores v']
    by simp
qed

theorem missing_probability_not_defaulted_witness:
  "(\<exists>k. apply_no_ans_threshold [(''q'', 1), (''r'', 1)] [(''r'', 3 / 10)]
           [(''q'', True), (''r'', True)] 0 = Inl (KeyError k))
   \<and> find_best_thresh [(''q'', ''x''), (''r'', ''y'')] (AList.update ''q'' 1 [(''q'', 1), (''r'', 1)])
        [(''r'', 3 / 10)] [(''q'', True), (''r'', True)] = Inr (50, 3 / 10)
   \<and> find_best_thresh [(''q'', ''x''), (''r'', ''y'')] (AList.update ''q'' 0 [(''q'', 1), (''r'', 1)])
        [(''r'', 3 / 10)] [(''q'', True), (''r'', True)] = Inr (50, 3 / 10)"
proof -
  let ?scores = "[(''q'', 1), (''r'', 1 :: real)]"
  let ?probs = "[(''r'', 3 / 10 :: real)]"
  let ?has = "[(''q'', True), (''r'', True)]"
  let ?preds = "[(''q'', ''x''), (''r'', ''y'')]"
  have 1: "contains ?scores ''q'' \<and> \<not> contains ?probs ''q''"
    by (simp add: contains_iff keys_def)
  have 2: "\<not> contains ?probs ''q''" by (simp add: contains_iff keys_def)
  note t = missing_probability_not_defaulted [of ?scores "''q''" ?probs ?has 0 ?preds 1 0]
  from t 1 have e: "\<exists>k. apply_no_ans_threshold ?scores ?probs ?has 0 = Inl (KeyError k)"
    by blast
  from t 2 have same: "find_best_thresh ?preds (AList.update ''q'' 1 ?scores) ?probs ?has
      = find_best_thresh ?preds (AList.update ''q'' 0 ?scores) ?probs ?has"
    by blast
  have v: "find_best_thresh ?preds (AList.update ''q'' 1 ?scores) ?probs ?has = Inr (50, 3 / 10)"
    by code_simp
  from e same v show ?thesis by simp
qed

subsection \<open>The best threshold when no question has an answer\<close>

lemma best_loop_all_rejected:
  assumes "\<forall>qid. contains scores qid \<longrightarrow> map_of h qid = Some False \<and> map_of preds qid = Some []"
  shows "best_loop preds scores na_probs h (c, c, b) qs = Inr (c, c, b)"
  using assms by (induction qs) (auto simp: getitem_def bind_def)

lemma all_false_filter:
  "\<forall>(k, v) \<in> set h. \<not> v \<Longrightarrow> filter (\<lambda>(k, v). \<not> v) h = h"
  by (induction h) auto

text \<open>
  C7, as stated: whenever all questions are without answer, every question id has a
  score and every prediction is empty, \<open>find_best_thresh\<close> would return 100 and the
  threshold 0. With no question at all it divides by zero.
\<close>

theorem find_best_thresh_empty_counterexample:
  "find_best_thresh [] [] [] [] = Inl ZeroDivisionError"
  by (simp add: find_best_thresh_def sorted_by_value_def bind_def true_div_def)

text \<open>
  C7, amended. When there is at least one scored question, the scored ids are exactly
  the question ids, no question has an answer and every scored question is predicted the
  empty string, \<open>find_best_thresh\<close> returns the percentage 100 and the threshold 0,
  whatever the no-answer probabilities.
\<close>

theorem find_best_thresh_all_no_answer:
  assumes "scores \<noteq> []"
    and "distinct (keys scores)" and "distinct (keys qid_to_has_ans)"
    and "set (keys scores) = set (keys qid_to_has_ans)"
    and "\<forall>(k, v) \<in> set qid_to_has_ans. \<not> v"
    and "\<forall>qid \<in> set (keys scores). map_of preds qid = Some []"
  shows "find_best_thresh preds scores na_probs qid_to_has_ans = Inr (100, 0)"
proof -
  have len: "length qid_to_has_ans = length scores"
    using assms(2,3,4) by (metis distinct_card keys_def length_map)
  have pre: "\<forall>qid. contains scores qid \<longrightarrow>
               map_of qid_to_has_ans qid = Some False \<and> map_of preds qid = Some []"
  proof (intro allI impI)
    fix qid assume "contains scores qid"
    then have k: "qid \<in> set (keys scores)" by (simp add: contains_iff)
    with assms(4) have "qid \<in> set (keys qid_to_has_ans)" by simp
    then obtain v where v: "map_of qid_to_has_ans qid = Some v"
      by (metis contains_def contains_iff not_None_eq)
    then have "(qid, v) \<in> set qid_to_has_ans" by (rule map_of_SomeD)
    with assms(5) have "\<not> v" by auto
    with v k assms(6) show "map_of qid_to_has_ans qid = Some False \<and> map_of preds qid = Some []"
      by simp
  qed
  have n: "length (filter (\<lambda>(k, v). \<not> v) qid_to_has_ans) = length scores"
    using all_false_filter [OF assms(5)] len by simp
  from assms(1) have pos: "real (length scores) \<noteq> 0" by simp
  show ?thesis
    unfolding find_best_thresh_def Let_def n
    using best_loop_all_rejected [OF pre] pos
    by (simp add: bind_def true_div_def)
qed

theorem find_best_thresh_all_no_answer_witness:
  "find_best_thresh [(''q1'', ''''), (''q2'', '''')] [(''q1'', 1), (''q2'', 1)]
     [(''q1'', 3 / 10), (''q2'', 7 / 10)] [(''q1'', False), (''q2'', False)] = Inr (100, 0)"
proof -
  show ?thesis
    by (rule find_best_thresh_all_no_answer) (simp_all add: keys_def)
qed

subsection \<open>The keys of the summary\<close>

lemma keys_merge_eval:
  "set (keys (merge_eval main_eval new_eval prefix))
     = set (keys main_eval) \<union> (\<lambda>k. prefix @ ''_'' @ k) ` set (keys new_eval)"
  unfolding merge_eval_def
proof (induction new_eval arbitrary: main_eval)
  case Nil
  then show ?case by (simp add: keys_def)
next
  case (Cons kv new_eval)
  obtain k v where kv: "kv = (k, v)" by (cases kv)
  have "set (keys (fold (\<lambda>(k, v). AList.update (prefix @ ''_'' @ k) v) new_eval
               (AList.update (prefix @ ''_'' @ k) v main_eval)))
        = set (keys (AList.update (prefix @ ''_'' @ k) v main_eval))
            \<union> (\<lambda>k. prefix @ ''_'' @ k) ` set (keys new_eval)"
    by (rule Cons.IH)
  then show ?case by (auto simp: kv keys_def dom_update)
qed

lemma eval_triple_keys: "eval_triple a b n = Inr d \<Longrightarrow> keys d = [''exact'', ''f1'', ''total'']"
  by (auto simp: eval_triple_def bind_def keys_def split: sum.splits)

lemma make_eval_dict_keys:
  "make_eval_dict e f q = Inr d \<Longrightarrow> keys d = [''exact'', ''f1'', ''total'']"
  unfolding make_eval_dict_def
  by (auto simp: bind_def keys_def split: option.splits list.splits sum.splits
        dest: eval_triple_keys)

lemma make_precision_recall_eval_keys:
  "make_precision_recall_eval plt s n t h img title = Inr d \<Longrightarrow> keys d = [''ap'']"
  by (auto simp: make_precision_recall_eval_def Let_def bind_def keys_def
        split: sum.splits option.splits if_splits)

lemma run_precision_recall_analysis_keys:
  assumes "run_precision_recall_analysis plt m e f n h dir = (out, Inr m')"
  shows "set (keys m') = set (keys m) \<union>
           (if filter (\<lambda>(k, v). v) h = [] then {}
            else {''pr_exact_ap'', ''pr_f1_ap'', ''pr_oracle_ap''})"
proof (cases "filter (\<lambda>(k, v). v) h = []")
  case True
  with assms show ?thesis by (simp add: run_precision_recall_analysis_def)
next
  case False
  with assms show ?thesis
    by (auto simp: run_precision_recall_analysis_def Let_def bind_def keys_merge_eval
          split: option.splits sum.splits dest!: make_precision_recall_eval_keys)
qed

text \<open>
  The keys of a summary that \<open>evaluate\<close> returns: the overall triple, the triples of
  the questions with and without answer when there are such questions, and the three
  average precisions when a file of no-answer probabilities is given and some question
  has an answer.
\<close>

lemma evaluate_keys:
  assumes "snd (evaluate plt dataset prediction_file preds na_probs_file img_out_dir save_f1_thres)
             = Inr (exact, f1, out_eval)"
  shows "set (keys out_eval) =
           {''exact'', ''f1'', ''total''}
           \<union> (if filter (\<lambda>(k, v). v) (make_qid_to_has_ans dataset) \<noteq> []
              then {''HasAns_exact'', ''HasAns_f1'', ''HasAns_total''} else {})
           \<union> (if filter (\<lambda>(k, v). \<not> v) (make_qid_to_has_ans dataset) \<noteq> []
              then {''NoAns_exact'', ''NoAns_f1'', ''NoAns_total''} else {})
           \<union> (if na_probs_file \<noteq> None \<and> filter (\<lambda>(k, v). v) (make_qid_to_has_ans dataset) \<noteq> []
              then {''pr_exact_ap'', ''pr_f1_ap'', ''pr_oracle_ap''} else {})"
  using assms unfolding evaluate_def Let_def
  apply (clarsimp simp: bind_def split: prod.splits sum.splits if_splits
      dest!: make_eval_dict_keys run_precision_recall_analysis_keys)
         apply (simp_all add: keys_merge_eval)
         apply (simp_all add: insert_commute Un_commute)
  done

text \<open>
  C2. A run of \<open>evaluate\<close> with a file of no-answer probabilities is to return a
  summary with the keys \<open>best_exact\<close>, \<open>best_exact_thresh\<close>, \<open>best_f1\<close> and
  \<open>best_f1_thresh\<close>. \<open>find_all_best_thresh\<close> writes these four keys, as it does on the
  scores and the probabilities of the run below; \<open>evaluate\<close> does not call it, and the
  summary of the run, which has such a file, an image directory and \<open>plt\<close> bound, has
  none of them.
\<close>

theorem evaluate_lacks_best_thresh:
  "snd (evaluate True
     [\<lparr>qas = [\<lparr>qa_id = ''q1'', qa_answers = [\<lparr>answer_text = ''x''\<rparr>]\<rparr>,
              \<lparr>qa_id = ''q2'', qa_answers = []\<rparr>]\<rparr>]
     ''out/preds.json'' [(''q2'', ''''), (''q1'', ''x'')]
     (Some [(''q1'', 1 / 10), (''q2'', 9 / 10)]) (Some ''img'') False)
   = Inr (100, 100,
       [(''exact'', 100), (''f1'', 100), (''total'', 2),
        (''HasAns_exact'', 100), (''HasAns_f1'', 100), (''HasAns_total'', 1),
        (''NoAns_exact'', 100), (''NoAns_f1'', 100), (''NoAns_total'', 1),
        (''pr_exact_ap'', 50), (''pr_f1_ap'', 50), (''pr_oracle_ap'', 50)])
   \<and> (case get_raw_scores
           [\<lparr>qas = [\<lparr>qa_id = ''q1'', qa_answers = [\<lparr>answer_text = ''x''\<rparr>]\<rparr>,
                    \<lparr>qa_id = ''q2'', qa_answers = []\<rparr>]\<rparr>]
           [(''q2'', ''''), (''q1'', ''x'')] of
        (out, exact_raw, f1_raw) \<Rightarrow>
          find_all_best_thresh [(''exact'', 100), (''f1'', 100), (''total'', 2)]
            [(''q2'', ''''), (''q1'', ''x'')] exact_raw f1_raw
            [(''q1'', 1 / 10), (''q2'', 9 / 10)]
            (make_qid_to_has_ans
               [\<lparr>qas = [\<lparr>qa_id = ''q1'', qa_answers = [\<lparr>answer_text = ''x''\<rparr>]\<rparr>,
                        \<lparr>qa_id = ''q2'', qa_answers = []\<rparr>]\<rparr>]))
     = Inr [(''exact'', 100), (''f1'', 100), (''total'', 2),
            (''best_exact'', 100), (''best_exact_thresh'', 1 / 10),
            (''best_f1'', 100), (''best_f1_thresh'', 1 / 10)]"
  by code_simp

subsection \<open>The loaded no-answer probabilities\<close>

text \<open>
  \<open>evaluate\<close> has one variable \<open>na_probs\<close>. The mapping loaded from the file is
  assigned to it and then replaced, without an \<open>else\<close>, by the all-zero mapping over
  the prediction ids: no result of \<open>evaluate\<close> depends on what the file holds.
\<close>

lemma evaluate_loaded_content_unused:
  "evaluate plt dataset prediction_file preds (Some loaded) img_out_dir save_f1_thres
     = evaluate plt dataset prediction_file preds (Some loaded') img_out_dir save_f1_thres"
proof -
  have supplied: "\<And>m :: (string, real) dict. (Some m \<noteq> None) = True" by simp
  show ?thesis unfolding evaluate_def Let_def supplied by (rule refl)
qed

text \<open>
  C1. The part of the claim about the main scores holds: they are aggregated on the
  all-zero mapping. The precision-recall analysis is to receive the loaded
  probabilities; it is passed the same all-zero variable. In the run below, with
  \<open>plt\<close> bound, the analysis on the loaded mapping gives the average precisions 100,
  and \<open>evaluate\<close> reports 50, their value on the all-zero mapping.
\<close>

theorem evaluate_pr_analysis_on_zeros:
  "(case get_raw_scores
           [\<lparr>qas = [\<lparr>qa_id = ''q1'', qa_answers = [\<lparr>answer_text = ''x''\<rparr>]\<rparr>,
                    \<lparr>qa_id = ''q2'', qa_answers = []\<rparr>]\<rparr>]
           [(''q2'', ''''), (''q1'', ''x'')] of
      (out, exact_raw, f1_raw) \<Rightarrow>
        snd (run_precision_recall_analysis True [] exact_raw f1_raw
               [(''q1'', 1 / 10), (''q2'', 9 / 10)]
               (make_qid_to_has_ans
                  [\<lparr>qas = [\<lparr>qa_id = ''q1'', qa_answers = [\<lparr>answer_text = ''x''\<rparr>]\<rparr>,
                           \<lparr>qa_id = ''q2'', qa_answers = []\<rparr>]\<rparr>])
               (Some ''img'')))
     = Inr [(''pr_exact_ap'', 100), (''pr_f1_ap'', 100), (''pr_oracle_ap'', 100)]
   \<and> snd (evaluate True
       [\<lparr>qas = [\<lparr>qa_id = ''q1'', qa_answers = [\<lparr>answer_text = ''x''\<rparr>]\<rparr>,
                \<lparr>qa_id = ''q2'', qa_answers = []\<rparr>]\<rparr>]
       ''out/preds.json'' [(''q2'', ''''), (''q1'', ''x'')]
       (Some [(''q1'', 1 / 10), (''q2'', 9 / 10)]) (Some ''img'') False)
     = Inr (100, 100,
         [(''exact'', 100), (''f1'', 100), (''total'', 2),
          (''HasAns_exact'', 100), (''HasAns_f1'', 100), (''HasAns_total'', 1),
          (''NoAns_exact'', 100), (''NoAns_f1'', 100), (''NoAns_total'', 1),
          (''pr_exact_ap'', 50), (''pr_f1_ap'', 50), (''pr_oracle_ap'', 50)])
   \<and> (case get_raw_scores
           [\<lparr>qas = [\<lparr>qa_id = ''q1'', qa_answers = [\<lparr>answer_text = ''x''\<rparr>]\<rparr>,
                    \<lparr>qa_id = ''q2'', qa_answers = []\<rparr>]\<rparr>]
           [(''q2'', ''''), (''q1'', ''x'')] of
      (out, exact_raw, f1_raw) \<Rightarrow>
        snd (run_precision_recall_analysis True [] exact_raw f1_raw
               [(''q2'', 0), (''q1'', 0)]
               (make_qid_to_has_ans
                  [\<lparr>qas = [\<lparr>qa_id = ''q1'', qa_answers = [\<lparr>answer_text = ''x''\<rparr>]\<rparr>,
                           \<lparr>qa_id = ''q2'', qa_answers = []\<rparr>]\<rparr>])
               (Some ''img'')))
     = Inr [(''pr_exact_ap'', 50), (''pr_f1_ap'', 50), (''pr_oracle_ap'', 50)]"
  by code_simp

subsection \<open>Normalisation is idempotent\<close>

text \<open>
  The proof follows the text through its word runs. Inside a word, and at a character
  that is not a word character, \<open>sub_articles\<close> copies; at the start of a word run it
  replaces the run when the run is an article and copies it otherwise. So a second pass
  finds no article, and collapsing the whitespace changes no word run.
\<close>

lemma space_not_word: "is_space c \<Longrightarrow> \<not> is_word c"
  by (auto simp: is_space_def is_word_def Let_def)

lemma article_chars:
  "is_word CHR ''a''" "is_word CHR ''n''" "is_word CHR ''t''" "is_word CHR ''h''" "is_word CHR ''e''"
  by (simp_all add: is_word_def)

lemma blank_facts:
  "\<not> is_word CHR '' ''" "is_space CHR '' ''" "\<not> is_punc CHR '' ''" "lower_char CHR '' '' = CHR '' ''"
  by (simp_all add: is_word_def is_space_def is_punc_def lower_char_def)

lemma lower_char_idem: "lower_char (lower_char c) = lower_char c"
  by (auto simp: lower_char_def Let_def)

lemma word_boundary_True: "word_boundary True r \<longleftrightarrow> (r = [] \<or> \<not> is_word (hd r))"
  by (cases r) (simp_all add: word_boundary_def)

lemma match_article_in_word: "is_word c \<Longrightarrow> match_article True (c # cs) = None"
  by (simp add: match_article_def word_boundary_def)

lemma match_article_nonword: "\<not> is_word c \<Longrightarrow> match_article prev (c # cs) = None"
  using article_chars by (auto simp: match_article_def literal_then_boundary_def)

lemma sub_articles_in_word: "is_word c \<Longrightarrow> sub_articles True (c # cs) = c # sub_articles True cs"
  by (simp add: match_article_in_word)

lemma sub_articles_nonword:
  "\<not> is_word c \<Longrightarrow> sub_articles prev (c # cs) = c # sub_articles False cs"
  by (simp add: match_article_nonword)

lemma sub_articles_word_run:
  "\<forall>c \<in> set w. is_word c \<Longrightarrow> sub_articles True (w @ r) = w @ sub_articles True r"
  by (induction w) (simp_all add: sub_articles_in_word del: sub_articles.simps(2))

lemma literal_on_word_run:
  assumes lit: "lit \<noteq> []" "\<forall>c \<in> set lit. is_word c"
    and w: "w \<noteq> []" "\<forall>c \<in> set w. is_word c"
    and r: "word_boundary True r"
  shows "literal_then_boundary lit (w @ r) \<longleftrightarrow> w = lit"
proof
  assume "w = lit"
  with lit r show "literal_then_boundary lit (w @ r)"
    by (simp add: literal_then_boundary_def)
next
  assume m: "literal_then_boundary lit (w @ r)"
  then have t: "take (length lit) (w @ r) = lit"
    and b: "word_boundary True (drop (length lit) (w @ r))"
    using lit by (simp_all add: literal_then_boundary_def)
  have "\<not> length lit < length w"
  proof
    assume less: "length lit < length w"
    then have d: "drop (length lit) (w @ r) = (w ! length lit) # drop (Suc (length lit)) w @ r"
      by (simp add: Cons_nth_drop_Suc)
    from b [unfolded d] have "\<not> is_word (w ! length lit)" by (simp add: word_boundary_def)
    with w(2) less show False by simp
  qed
  moreover have "\<not> length w < length lit"
  proof
    assume less: "length w < length lit"
    with t have eq: "w @ take (length lit - length w) r = lit" by simp
    with less have "take (length lit - length w) r \<noteq> []" by auto
    then obtain d r' where dr: "r = d # r'" by (cases r) auto
    with r have "\<not> is_word d" by (simp add: word_boundary_True)
    moreover from eq dr less have "d \<in> set lit"
      by (metis Cons_eq_appendI in_set_conv_decomp take_Suc_Cons Suc_diff_Suc diff_zero
          zero_less_diff Suc_pred)
    ultimately show False using lit(2) by blast
  qed
  ultimately have "length w = length lit" by simp
  with t show "w = lit" by simp
qed

lemma match_article_word_run:
  assumes "w \<noteq> []" "\<forall>c \<in> set w. is_word c" "word_boundary True r"
  shows "match_article False (w @ r) =
           (if w = ''a'' then Some 1 else if w = ''an'' then Some 2
            else if w = ''the'' then Some 3 else None)"
proof -
  from assms(1,2) have "word_boundary False (w @ r)"
    by (cases w) (simp_all add: word_boundary_def)
  moreover have "literal_then_boundary ''a'' (w @ r) \<longleftrightarrow> w = ''a''"
    by (rule literal_on_word_run) (use assms article_chars in simp_all)
  moreover have "literal_then_boundary ''an'' (w @ r) \<longleftrightarrow> w = ''an''"
    by (rule literal_on_word_run) (use assms article_chars in simp_all)
  moreover have "literal_then_boundary ''the'' (w @ r) \<longleftrightarrow> w = ''the''"
    by (rule literal_on_word_run) (use assms article_chars in simp_all)
  ultimately show ?thesis by (simp add: match_article_def)
qed

lemma sub_articles_word_run_start:
  assumes "w \<noteq> []" "\<forall>c \<in> set w. is_word c" "word_boundary True r"
  shows "sub_articles False (w @ r) =
           (if w = ''a'' \<or> w = ''an'' \<or> w = ''the'' then CHR '' '' # sub_articles True r
            else w @ sub_articles True r)"
proof -
  from assms(1) obtain c w' where w: "w = c # w'" by (cases w) auto
  have m: "match_article False (c # w' @ r) =
           (if w = ''a'' then Some 1 else if w = ''an'' then Some 2
            else if w = ''the'' then Some 3 else None)"
    using match_article_word_run [OF assms] w by simp
  show ?thesis
  proof (cases "w = ''a'' \<or> w = ''an'' \<or> w = ''the''")
    case True
    with m have mm: "match_article False (c # w' @ r) = Some (length w)" by auto
    have "sub_articles False (c # w' @ r) =
            CHR '' '' # sub_articles (is_word ((c # w' @ r) ! (length w - 1)))
                          (drop (length w) (c # w' @ r))"
      by (simp add: mm del: drop_Suc_Cons nth_Cons_Suc)
    moreover have "drop (length w) (c # w' @ r) = r" using w by simp
    moreover have "(c # w' @ r) ! (length w - 1) = last w"
      using w by (simp add: nth_append last_conv_nth)
    moreover have "is_word (last w)" using assms(1,2) by simp
    ultimately show ?thesis using True w by simp
  next
    case False
    with m have "match_article False (c # w' @ r) = None" by simp
    then have "sub_articles False (c # w' @ r) = c # sub_articles (is_word c) (w' @ r)"
      by simp
    moreover from assms(2) w have "is_word c" "\<forall>c \<in> set w'. is_word c" by simp_all
    ultimately show ?thesis
      using False w sub_articles_word_run [of w' r] by simp
  qed
qed

lemma word_boundary_dropWhile: "word_boundary True (dropWhile is_word x)"
  unfolding word_boundary_True using hd_dropWhile by blast

lemma word_boundary_sub_articles:
  "word_boundary True r \<Longrightarrow> word_boundary True (sub_articles prev r)"
  by (cases r) (simp_all add: word_boundary_True sub_articles_nonword del: sub_articles.simps(2))

lemma sub_articles_prev_irrelevant:
  "word_boundary True r \<Longrightarrow> sub_articles prev r = sub_articles False r"
  by (cases r) (simp_all add: word_boundary_True sub_articles_nonword del: sub_articles.simps(2))

lemma sub_articles_cases:
  obtains (empty) "x = []"
  | (nonword) c cs where "x = c # cs" "\<not> is_word c"
  | (inside) c cs where "x = c # cs" "is_word c" "prev"
  | (start) w r where "x = w @ r" "w \<noteq> []" "\<forall>c \<in> set w. is_word c" "word_boundary True r"
      "\<not> prev"
proof (cases x)
  case Nil
  then show ?thesis by (rule empty)
next
  case (Cons c cs)
  show ?thesis
  proof (cases "is_word c")
    case False
    with Cons show ?thesis by (rule nonword)
  next
    case True
    show ?thesis
    proof (cases prev)
      case True
      with Cons \<open>is_word c\<close> show ?thesis by (rule inside)
    next
      case False
      have "x = takeWhile is_word x @ dropWhile is_word x" by simp
      moreover have "takeWhile is_word x \<noteq> []" using Cons \<open>is_word c\<close> by simp
      moreover have "\<forall>c \<in> set (takeWhile is_word x). is_word c"
        by (auto dest: set_takeWhileD)
      ultimately show ?thesis using word_boundary_dropWhile False by (rule start)
    qed
  qed
qed

lemma sub_articles_idem: "sub_articles prev (sub_articles prev x) = sub_articles prev x"
proof (induction x arbitrary: prev rule: length_induct)
  case (1 x)
  then have IH: "\<And>y p. length y < length x \<Longrightarrow> sub_articles p (sub_articles p y) = sub_articles p y"
    by blast
  show ?case
  proof (cases rule: sub_articles_cases [of x _ prev])
    case empty
    then show ?thesis by simp
  next
    case (nonword c cs)
    then show ?thesis using IH [of cs False]
      by (simp add: sub_articles_nonword del: sub_articles.simps(2))
  next
    case (inside c cs)
    then show ?thesis using IH [of cs True]
      by (simp add: sub_articles_in_word del: sub_articles.simps(2))
  next
    case (start w r)
    then have len: "length r < length x" by (cases w) simp_all
    have b: "word_boundary True (sub_articles True r)"
      using start(4) by (rule word_boundary_sub_articles)
    show ?thesis
    proof (cases "w = ''a'' \<or> w = ''an'' \<or> w = ''the''")
      case True
      have "sub_articles False (sub_articles True r) = sub_articles True r"
        using IH [OF len, of False] sub_articles_prev_irrelevant [OF start(4), of True] by simp
      then show ?thesis
        using True start sub_articles_word_run_start [OF start(2,3,4)] blank_facts(1)
        by (simp add: sub_articles_nonword del: sub_articles.simps(2))
    next
      case False
      then show ?thesis
        using start sub_articles_word_run_start [OF start(2,3,4)]
          sub_articles_word_run_start [OF start(2,3) b] IH [OF len, of True]
        by (simp del: sub_articles.simps(2))
    qed
  qed
qed

lemma sub_articles_append_nonword:
  "\<not> is_word d \<Longrightarrow>
   sub_articles prev (t @ d # r) = sub_articles prev t @ d # sub_articles False r"
proof (induction t arbitrary: prev rule: length_induct)
  case (1 t)
  then have IH: "\<And>u p. length u < length t \<Longrightarrow>
      sub_articles p (u @ d # r) = sub_articles p u @ d # sub_articles False r"
    by blast
  note d = \<open>\<not> is_word d\<close>
  show ?case
  proof (cases rule: sub_articles_cases [of t _ prev])
    case empty
    then show ?thesis using d by (simp add: sub_articles_nonword del: sub_articles.simps(2))
  next
    case (nonword c cs)
    then show ?thesis using IH [of cs False]
      by (simp add: sub_articles_nonword del: sub_articles.simps(2))
  next
    case (inside c cs)
    then show ?thesis using IH [of cs True]
      by (simp add: sub_articles_in_word del: sub_articles.simps(2))
  next
    case (start w u)
    then have len: "length u < length t" by (cases w) simp_all
    have b: "word_boundary True (u @ d # r)"
      using start(4) d by (cases u) (simp_all add: word_boundary_True)
    have "sub_articles False (w @ u @ d # r) =
            (if w = ''a'' \<or> w = ''an'' \<or> w = ''the'' then CHR '' '' # sub_articles True (u @ d # r)
             else w @ sub_articles True (u @ d # r))"
      by (rule sub_articles_word_run_start [OF start(2,3) b])
    then show ?thesis
      using start sub_articles_word_run_start [OF start(2,3,4)] IH [OF len, of True]
      by (simp del: sub_articles.simps(2))
  qed
qed

lemma split_run_append_space:
  "is_space d \<Longrightarrow> split_run cur (u @ d # v) = split_run cur u @ split v"
  by (induction u arbitrary: cur) (simp_all add: split_def)

lemma split_space_head: "is_space c \<Longrightarrow> split (c # cs) = split cs"
  by (simp add: split_def)

lemma split_run_nonspace:
  "\<forall>c \<in> set t. \<not> is_space c \<Longrightarrow> split_run cur (t @ r) = split_run (cur @ t) r"
  by (induction t arbitrary: cur) simp_all

lemma split_token: "t \<noteq> [] \<Longrightarrow> \<forall>c \<in> set t. \<not> is_space c \<Longrightarrow> split t = [t]"
  using split_run_nonspace [of t "[]" "[]"] by (simp add: split_def)

lemma join_Cons: "join sep (t # ts) = (if ts = [] then t else t @ sep @ join sep ts)"
  by (cases ts) simp_all

lemma split_sub_articles_white_space_fix:
  "split (sub_articles False (white_space_fix x)) = split (sub_articles False x)"
proof (induction x rule: length_induct)
  case (1 x)
  then have IH: "\<And>y. length y < length x \<Longrightarrow>
      split (sub_articles False (white_space_fix y)) = split (sub_articles False y)"
    by blast
  show ?case
  proof (cases x)
    case Nil
    then show ?thesis by (simp add: white_space_fix_def split_def)
  next
    case (Cons c cs)
    show ?thesis
    proof (cases "is_space c")
      case True
      then have "white_space_fix x = white_space_fix cs"
        using Cons by (simp add: white_space_fix_def split_space_head)
      moreover have "split (sub_articles False x) = split (sub_articles False cs)"
        using Cons True
        by (simp add: sub_articles_nonword space_not_word split_space_head
              del: sub_articles.simps(2))
      ultimately show ?thesis using IH [of cs] Cons by simp
    next
      case False
      define t where "t = takeWhile (\<lambda>c. \<not> is_space c) x"
      define r where "r = dropWhile (\<lambda>c. \<not> is_space c) x"
      have x: "x = t @ r" by (simp add: t_def r_def)
      have t: "t \<noteq> []" "\<forall>c \<in> set t. \<not> is_space c"
        using Cons False by (auto simp: t_def dest: set_takeWhileD)
      show ?thesis
      proof (cases r)
        case Nil
        with x t show ?thesis by (simp add: white_space_fix_def split_token)
      next
        case (Cons d r')
        have d: "is_space d"
        proof -
          have "r \<noteq> []" using Cons by simp
          then have "\<not> \<not> is_space (hd r)" unfolding r_def by (rule hd_dropWhile)
          then show ?thesis using Cons by simp
        qed
        have len: "length r' < length x" using x Cons by simp
        have sx: "split x = t # split r'"
          using x Cons d t split_run_append_space [of d "[]" t r']
          by (simp add: split_def [symmetric] split_token)
        have rhs: "split (sub_articles False x)
                     = split (sub_articles False t) @ split (sub_articles False r')"
          using x Cons d space_not_word [OF d] sub_articles_append_nonword [of d False t r']
            split_run_append_space [OF d, of "[]" "sub_articles False t" "sub_articles False r'"]
          by (simp add: split_def)
        show ?thesis
        proof (cases "split r' = []")
          case True
          then have "white_space_fix r' = []" by (simp add: white_space_fix_def)
          with IH [OF len] have e: "split (sub_articles False r') = []"
            by (simp add: split_def)
          from True sx have "white_space_fix x = t" by (simp add: white_space_fix_def)
          with rhs e show ?thesis by simp
        next
          case False
          with sx have w: "white_space_fix x = t @ CHR '' '' # white_space_fix r'"
            by (simp add: white_space_fix_def join_Cons)
          have "split (sub_articles False (t @ CHR '' '' # white_space_fix r'))
                  = split (sub_articles False t) @ split (sub_articles False (white_space_fix r'))"
            using blank_facts(1,2)
              sub_articles_append_nonword [of "CHR '' ''" False t "white_space_fix r'"]
              split_run_append_space [of "CHR '' ''" "[]" "sub_articles False t"
                "sub_articles False (white_space_fix r')"]
            by (simp add: split_def)
          with w rhs IH [OF len] show ?thesis by simp
        qed
      qed
    qed
  qed
qed

lemma set_sub_articles: "set (sub_articles prev x) \<subseteq> insert CHR '' '' (set x)"
proof (induction prev x rule: sub_articles.induct)
  case (1 prev)
  then show ?case by simp
next
  case (2 prev c cs)
  show ?case
  proof (cases "match_article prev (c # cs)")
    case None
    with 2 show ?thesis by auto
  next
    case (Some n)
    with 2 have "set (sub_articles (is_word ((c # cs) ! (n - 1))) (drop n (c # cs)))
                   \<subseteq> insert CHR '' '' (set (drop n (c # cs)))"
      by simp
    moreover have "set (drop n (c # cs)) \<subseteq> set (c # cs)" by (rule set_drop_subset)
    ultimately show ?thesis using Some by auto
  qed
qed

lemma set_split_run: "t \<in> set (split_run cur x) \<Longrightarrow> set t \<subseteq> set cur \<union> set x"
  by (induction x arbitrary: cur) (fastforce split: if_splits)+

lemma set_join: "set (join sep ts) \<subseteq> set sep \<union> \<Union> (set ` set ts)"
  by (induction sep ts rule: join.induct) auto

lemma set_white_space_fix: "set (white_space_fix x) \<subseteq> insert CHR '' '' (set x)"
proof
  fix c assume "c \<in> set (white_space_fix x)"
  then have "c \<in> set '' '' \<union> \<Union> (set ` set (split x))"
    using set_join [of "'' ''" "split x"] by (auto simp: white_space_fix_def)
  then show "c \<in> insert CHR '' '' (set x)"
    using set_split_run [of _ "[]" x] by (auto simp: split_def)
qed

text \<open>
  C6. \<open>normalize_answer\<close> is idempotent: normalising a normalised string returns it
  unchanged.
\<close>

theorem normalize_answer_idempotent:
  "normalize_answer (normalize_answer s) = normalize_answer s"
proof -
  define y where "y = remove_punc (lower s)"
  define z where "z = normalize_answer s"
  have z: "z = white_space_fix (sub_articles False y)"
    by (simp add: z_def y_def normalize_answer_def remove_articles_def)
  have y_chars: "\<forall>c \<in> set y. \<not> is_punc c \<and> lower_char c = c"
    by (auto simp: y_def remove_punc_def lower_def lower_char_idem)
  have z_chars: "\<forall>c \<in> set z. \<not> is_punc c \<and> lower_char c = c"
  proof
    fix c assume "c \<in> set z"
    then have "c = CHR '' '' \<or> c \<in> set y"
      using set_white_space_fix [of "sub_articles False y"] set_sub_articles [of False y]
      by (auto simp: z)
    with y_chars blank_facts show "\<not> is_punc c \<and> lower_char c = c" by auto
  qed
  have "lower z = z" using z_chars by (simp add: lower_def map_idI)
  moreover have "remove_punc z = z" using z_chars by (simp add: remove_punc_def)
  ultimately have "normalize_answer z = white_space_fix (sub_articles False z)"
    by (simp add: normalize_answer_def remove_articles_def)
  also have "\<dots> = join '' '' (split (sub_articles False (white_space_fix (sub_articles False y))))"
    by (simp add: white_space_fix_def z)
  also have "\<dots> = join '' '' (split (sub_articles False (sub_articles False y)))"
    by (simp only: split_sub_articles_white_space_fix)
  also have "\<dots> = z"
    by (simp add: sub_articles_idem z white_space_fix_def)
  finally show ?thesis by (simp add: z_def)
qed

end
